theory Spec2Isabelle
  imports Complex_Main
begin

section \<open>FermPi: the fermentation controller of \<open>src/fermpi.py\<close>\<close>

text \<open>
  The controller is a Python 2 script (\<open>MySQLdb\<close>, \<open>with conn as cur\<close>): a supervisor
  loop (\<open>main\<close>) polls the configuration and starts or stops one mode thread; a mode
  thread (\<open>ConstantMode\<close>, \<open>GradualMode\<close>) reads the sensors once per cycle and switches
  the heater relay.

  Modelling decisions:
  \<^item> temperatures are Python floats (IEEE 754 doubles); a value is modelled as the
    \<open>real\<close> it denotes, comparisons are exact, and the two subtractions the run loop
    computes, \<open>target - overshoot\<close> and \<open>target - 0.10\<close>, are rounded to the nearest
    double as the machine rounds them (\<open>fsub\<close>); infinities and NaN are not modelled;
  \<^item> Python integers (timestamps, durations) are \<open>int\<close>; \<open>/\<close> on two Python 2 integers
    is floor division, \<open>div\<close> on \<open>int\<close>;
  \<^item> the relay line is part of the state a thread acts on (\<open>gpio\<close>); the relay is
    low-active, so \<open>LOW\<close> is "heater on" and \<open>HIGH\<close> is "heater off";
  \<^item> an exception is a value: a call returns \<open>Inl (e, s)\<close> when it raises \<open>e\<close> in state
    \<open>s\<close>, and \<open>Inr s\<close> when it returns;
  \<^item> what the environment does in one cycle (the stop event, the sensor hardware, the
    clock, the database) is an input record; a run is a function of the list of these
    inputs, and a run that has consumed its inputs without leaving the loop is
    \<open>Running\<close>;
  \<^item> logging and the interruptible waits (\<open>event.wait\<close>) change no variable of the
    program and are left out; the telemetry rows written by \<open>_log_temperatures\<close> are
    not tracked, only whether the insert raises;
  \<^item> the supervisor and its mode threads run concurrently; the supervisor is modelled
    as an interleaving of events (a poll, a join timeout, the end of a thread's \<open>run\<close>,
    a signal), and a mode thread is seen by the supervisor only as alive or not.
\<close>

subsection \<open>Python values and names\<close>

datatype pyval = PyInt int | PyStr string | PyNone | PyObject string

datatype error =
  NameError | UnboundLocalError | IndexError | KeyError | MySQLError | SensorError
  | IOError | SystemExit

text \<open>
  The names bound at module level of \<open>fermpi.py\<close> (imports, constants, the global
  \<open>thread\<close>, classes and functions), with the value each has after the module body
  has run. A bare name inside a method that is not a local variable is looked up here
  (and then among the builtins, which hold neither \<open>HEATER_OFF\<close> nor \<open>sefl\<close>); the
  class attributes of \<open>FermentationThread\<close> are not in scope inside its methods.
\<close>

definition module_globals :: "(string \<times> pyval) list" where
  "module_globals =
    [(''__version__'', PyStr ''0.9.1''),
     (''pdb'', PyObject ''module''), (''sys'', PyObject ''module''),
     (''signal'', PyObject ''module''), (''logging'', PyObject ''module''),
     (''threading'', PyObject ''module''), (''mdb'', PyObject ''module''),
     (''GPIO'', PyObject ''module''), (''datetime'', PyObject ''class''),
     (''mktime'', PyObject ''function''), (''sleep'', PyObject ''function''),
     (''OptionParser'', PyObject ''class''), (''W1ThermSensor'', PyObject ''class''),
     (''HEATER_GPIO'', PyInt 21),
     (''DB_HOST'', PyStr ''<db server>''), (''DB_USER'', PyStr ''<db user>''),
     (''DB_PWD'', PyStr ''<db password>''), (''DB_NAME'', PyStr ''<db name>''),
     (''FPI_STATE_OFF'', PyInt 0), (''FPI_STATE_ON'', PyInt 1),
     (''FPI_MODE_IDLE'', PyInt 0), (''FPI_MODE_CONSTANT'', PyInt 1),
     (''FPI_MODE_GRADUAL'', PyInt 2),
     (''thread'', PyNone),
     (''FermentationThread'', PyObject ''class''), (''IdleMode'', PyObject ''class''),
     (''ConstantMode'', PyObject ''class''), (''GradualMode'', PyObject ''class''),
     (''heater_off'', PyObject ''function''), (''on_exit'', PyObject ''function''),
     (''read_configuration'', PyObject ''function''), (''main'', PyObject ''function'')]"

definition load_global :: "string \<Rightarrow> pyval option" where
  "load_global name = map_of module_globals name"

subsection \<open>Floating-point arithmetic\<close>

text \<open>
  A double has 53 significant bits: a real \<open>x\<close> with \<open>2 ^ k \<le> |x| < 2 ^ (k + 1)\<close> is
  rounded to a multiple of \<open>2 ^ (k - 52)\<close>, and of \<open>2 ^ (- 1074)\<close> in the subnormal
  range, to the nearest one and to the one with an even multiplier on a tie. Overflow
  (a magnitude of \<open>2 ^ 1024\<close> or more) is not modelled.
\<close>

definition pow2 :: "int \<Rightarrow> real" where
  "pow2 e = (if 0 \<le> e then 2 ^ nat e else 1 / 2 ^ nat (- e))"

definition binade :: "real \<Rightarrow> int" where
  "binade x = \<lfloor>log 2 \<bar>x\<bar>\<rfloor>"

definition round_half_even :: "real \<Rightarrow> int" where
  "round_half_even y =
    (let f = \<lfloor>y\<rfloor>
     in if y - of_int f < 1 / 2 then f
        else if 1 / 2 < y - of_int f then f + 1
        else if even f then f else f + 1)"

text \<open>
  The double nearest to a real: what a float operation returns for the exact result
  \<open>x\<close>, and what a decimal literal such as \<open>0.10\<close> or a conversion \<open>float('15.3')\<close>
  denotes.
\<close>

definition round_double :: "real \<Rightarrow> real" where
  "round_double x =
    (if x = 0 then 0
     else (let e = max (binade x - 52) (- 1074)
           in of_int (round_half_even (x / pow2 e)) * pow2 e))"

text \<open>The subtraction \<open>x - y\<close> of two Python floats.\<close>

definition fsub :: "real \<Rightarrow> real \<Rightarrow> real" where
  "fsub x y = round_double (x - y)"

subsection \<open>The state of a mode thread\<close>

datatype level = LOW | HIGH

datatype mstate = IDLE | HEATING | WAITING_FOR_PEAK | WAITING_FOR_TROUGH

text \<open>The class attributes \<open>HEATER_ON = 1\<close> and \<open>HEATER_OFF = 0\<close>, read as \<open>self.HEATER_ON\<close>.\<close>

definition HEATER_ON :: pyval where
  "HEATER_ON = PyInt 1"

definition HEATER_OFF :: pyval where
  "HEATER_OFF = PyInt 0"

text \<open>
  One entry of \<open>self._sensors\<close> is the list \<open>[sensor.id, sid, current, previous]\<close>; the
  two identifiers play no part in the control decisions and are left out.
\<close>

record sensor =
  cur :: real
  prev :: real

record fermentation_thread =
  gpio :: level
  heater :: pyval
  target :: real
  duration :: int
  cycle :: int
  overshoot :: real
  sensors :: "sensor list"
  state :: mstate
  timestamp :: int

text \<open>
  \<open>FermentationThread.__init__\<close> (lines 98-148): the stored heater state starts at
  \<open>HEATER_OFF\<close> and every sensor at \<open>[.., 0.0, 0.0]\<close>; the relay line is not commanded,
  so it keeps the level \<open>line\<close> it has when the thread is created. \<open>n\<close> is the number of
  sensors found.
\<close>

definition FermentationThread_init :: "level \<Rightarrow> nat \<Rightarrow> fermentation_thread" where
  "FermentationThread_init line n =
    \<lparr>gpio = line, heater = HEATER_OFF, target = 0, duration = 0, cycle = 10,
     overshoot = 0, sensors = replicate n \<lparr>cur = 0, prev = 0\<rparr>, state = IDLE,
     timestamp = 0\<rparr>"

text \<open>
  \<open>ConstantMode.__init__\<close> and \<open>GradualMode.__init__\<close> (lines 273-300, 417-444, the same
  text): \<open>row\<close> is columns 2 and 3 of the fermentation record (\<open>None\<close>: no record),
  \<open>ov\<close> and \<open>cy\<close> the configured overshoot and cycle (\<open>None\<close>: no such row).
\<close>

definition Mode_init ::
  "level \<Rightarrow> nat \<Rightarrow> (real option \<times> int option) option \<Rightarrow> real option \<Rightarrow> int option
    \<Rightarrow> fermentation_thread" where
  "Mode_init line n row ov cy =
    (let s0 = FermentationThread_init line n;
         s1 = (case row of
                 None \<Rightarrow> s0
               | Some (t, d) \<Rightarrow>
                   (let s' = (case t of None \<Rightarrow> s0 | Some v \<Rightarrow> s0\<lparr>target := v\<rparr>)
                    in (case d of None \<Rightarrow> s' | Some m \<Rightarrow> s'\<lparr>duration := m\<rparr>)));
         s2 = (case ov of None \<Rightarrow> s1 | Some v \<Rightarrow> s1\<lparr>overshoot := v\<rparr>)
     in (case cy of None \<Rightarrow> s2 | Some c \<Rightarrow> s2\<lparr>cycle := c\<rparr>))"

subsection \<open>Switching the heater\<close>

text \<open>\<open>_heater_on\<close> (lines 189-196).\<close>

definition heater_on :: "fermentation_thread \<Rightarrow> fermentation_thread" where
  "heater_on s = s\<lparr>gpio := LOW, heater := HEATER_ON\<rparr>"

text \<open>
  \<open>_heater_off\<close> (lines 198-205): \<open>GPIO.output(self._gpio, GPIO.HIGH)\<close>, then
  \<open>self._heater = HEATER_OFF\<close> with the bare name \<open>HEATER_OFF\<close>, a global lookup.
\<close>

definition heater_off ::
  "fermentation_thread \<Rightarrow> (error \<times> fermentation_thread) + fermentation_thread" where
  "heater_off s =
    (let s1 = s\<lparr>gpio := HIGH\<rparr>
     in (case load_global ''HEATER_OFF'' of
           None \<Rightarrow> Inl (NameError, s1)
         | Some v \<Rightarrow> Inr (s1\<lparr>heater := v\<rparr>)))"

subsection \<open>One cycle of the run loop\<close>

text \<open>
  What the sensor hardware answers for the sensor at one index: a temperature, or an
  exception of the constructor \<open>W1ThermSensor(..)\<close> (before anything is stored), or
  an exception of \<open>get_temperature()\<close> (after the previous value has been stored).
\<close>

datatype reading = Temp real | NoSensor | NotReady

text \<open>What \<open>_get_next_level\<close>'s \<open>SELECT\<close> gives: an exception, no row, or the level
  columns 2..11 of the row in pairs (target, duration).\<close>

datatype row_fetch = DbFail | NoRow | Row "(real option \<times> int option) list"

record cycle_input =
  stop :: bool
  temps :: "nat \<Rightarrow> reading"
  now :: int
  log_fails :: bool
  fermentation :: row_fetch
  reset_fails :: bool

datatype step =
  Continue fermentation_thread
  | Break fermentation_thread
  | Raise error fermentation_thread

text \<open>
  \<open>_read_temperatures\<close> (lines 150-173): \<open>for i in range(0, len(self._sensors), 4)\<close>
  touches the sensors at indices 0, 4, 8, ...; \<open>i\<close> is the index of the head of the
  list.
\<close>

fun read_from :: "nat \<Rightarrow> (nat \<Rightarrow> reading) \<Rightarrow> sensor list \<Rightarrow> error option \<times> sensor list" where
  "read_from i hw [] = (None, [])"
| "read_from i hw (p # ps) =
    (if i mod 4 = 0 then
       (case hw i of
          NoSensor \<Rightarrow> (Some SensorError, p # ps)
        | NotReady \<Rightarrow> (Some SensorError, p\<lparr>prev := cur p\<rparr> # ps)
        | Temp t \<Rightarrow>
            (case read_from (Suc i) hw ps of
               (e, ps') \<Rightarrow> (e, \<lparr>cur = t, prev = cur p\<rparr> # ps')))
     else
       (case read_from (Suc i) hw ps of (e, ps') \<Rightarrow> (e, p # ps')))"

definition read_temperatures ::
  "(nat \<Rightarrow> reading) \<Rightarrow> fermentation_thread
    \<Rightarrow> (error \<times> fermentation_thread) + fermentation_thread" where
  "read_temperatures hw s =
    (case read_from 0 hw (sensors s) of
       (None, ps) \<Rightarrow> Inr (s\<lparr>sensors := ps\<rparr>)
     | (Some e, ps) \<Rightarrow> Inl (e, s\<lparr>sensors := ps\<rparr>))"

text \<open>
  The climb phase, \<open>if self._timestamp == 0:\<close> (lines 339-356 and, with the same text,
  514-531). \<open>self._sensors[0]\<close> raises \<open>IndexError\<close> on an empty list. The statements
  \<open>self._state == self.WAITING_FOR_PEAK\<close> and \<open>self._state == self.IDLE\<close> are
  comparisons whose value is dropped: they change nothing. The margin
  \<open>self._target - self._overshoot\<close> is a float subtraction.
\<close>

definition heating_up ::
  "int \<Rightarrow> fermentation_thread \<Rightarrow> (error \<times> fermentation_thread) + fermentation_thread" where
  "heating_up ts s =
    (case sensors s of
       [] \<Rightarrow> Inl (IndexError, s)
     | p # _ \<Rightarrow>
         (let r =
            (if cur p < fsub (target s) (overshoot s) then
               Inr (if heater s = HEATER_OFF then (heater_on s)\<lparr>state := HEATING\<rparr> else s)
             else if cur p < prev p then
               Inr (if heater s = HEATER_OFF then (heater_on s)\<lparr>state := HEATING\<rparr> else s)
             else if heater s = HEATER_ON then heater_off s
             else Inr s)
          in (case r of
                Inl x \<Rightarrow> Inl x
              | Inr s1 \<Rightarrow> Inr (if cur p \<ge> target s1 then s1\<lparr>timestamp := ts\<rparr> else s1))))"

text \<open>
  "keep on going" (lines 375-383 and 551-559): the re-arm pulse of the maintain phase.
  The threshold \<open>self._target - 0.10\<close> is a float subtraction from the double that the
  literal \<open>0.10\<close> denotes.
\<close>

definition keep_going :: "fermentation_thread \<Rightarrow> step" where
  "keep_going s =
    (case sensors s of
       [] \<Rightarrow> Raise IndexError s
     | p # _ \<Rightarrow>
         (if cur p \<le> fsub (target s) (round_double 0.10) then
            (if cur p < prev p then
               (case heater_off (heater_on s) of
                  Inl (e, s') \<Rightarrow> Raise e s'
                | Inr s' \<Rightarrow> Continue (s'\<lparr>state := WAITING_FOR_PEAK\<rparr>))
             else Continue s)
          else Continue s))"

text \<open>
  "duration limit reached" with no further level (lines 368-373 and 544-549): after
  \<open>_heater_off()\<close> the statement \<open>sefl._state = self.IDLE\<close> loads the global \<open>sefl\<close>.
\<close>

definition end_thread :: "fermentation_thread \<Rightarrow> step" where
  "end_thread s =
    (if heater s = HEATER_ON then
       (case heater_off s of
          Inl (e, s') \<Rightarrow> Raise e s'
        | Inr s' \<Rightarrow>
            (case load_global ''sefl'' of
               None \<Rightarrow> Raise NameError s'
             | Some _ \<Rightarrow> Break s'))
     else Break s)"

text \<open>The maintain phase of constant mode (lines 357-383).\<close>

definition maintain_constant :: "int \<Rightarrow> fermentation_thread \<Rightarrow> step" where
  "maintain_constant ts s =
    (if duration s > 0 \<and> (ts - timestamp s) div 60 \<ge> duration s then end_thread s
     else keep_going s)"

text \<open>The decision step of a constant-mode cycle (lines 338-383).\<close>

definition constant_decide :: "int \<Rightarrow> fermentation_thread \<Rightarrow> step" where
  "constant_decide ts s =
    (if timestamp s = 0 then
       (case heating_up ts s of Inl (e, s') \<Rightarrow> Raise e s' | Inr s' \<Rightarrow> Continue s')
     else maintain_constant ts s)"

text \<open>The body of the \<open>while\<close> loop of \<open>ConstantMode.run\<close> (lines 327-396).\<close>

definition constant_cycle :: "cycle_input \<Rightarrow> fermentation_thread \<Rightarrow> step" where
  "constant_cycle inp s =
    (case read_temperatures (temps inp) s of
       Inl (e, s') \<Rightarrow> Raise e s'
     | Inr s1 \<Rightarrow>
         (if log_fails inp then Raise MySQLError s1 else constant_decide (now inp) s1))"

text \<open>
  The scan of \<open>_get_next_level\<close> (lines 468-479): \<open>i = 2, 4, .., 10\<close>, so at most five
  level pairs are looked at (\<open>n\<close> counts the pairs still to look at); a row that ends
  before a pair that is looked at raises \<open>IndexError\<close>. In Python 2 the comparison
  \<open>None >= self._target\<close> is false.
\<close>

fun scan_levels ::
  "nat \<Rightarrow> (real option \<times> int option) list \<Rightarrow> fermentation_thread
    \<Rightarrow> (error \<times> fermentation_thread) + (bool \<times> fermentation_thread)" where
  "scan_levels 0 row s = Inr (False, s)"
| "scan_levels (Suc n) [] s = Inl (IndexError, s)"
| "scan_levels (Suc n) ((t, d) # row) s =
    (case t of
       None \<Rightarrow> scan_levels n row s
     | Some v \<Rightarrow>
         (if v \<ge> target s then
            (let s1 = s\<lparr>target := v\<rparr>
             in Inr (True, (case d of None \<Rightarrow> s1 | Some m \<Rightarrow> s1\<lparr>duration := m\<rparr>)))
          else scan_levels n row s))"

text \<open>\<open>_get_next_level\<close> (lines 455-486).\<close>

definition get_next_level ::
  "row_fetch \<Rightarrow> fermentation_thread
    \<Rightarrow> (error \<times> fermentation_thread) + (bool \<times> fermentation_thread)" where
  "get_next_level fetch s =
    (let s1 = s\<lparr>target := 0, duration := 0, timestamp := 0\<rparr>
     in (case fetch of
           DbFail \<Rightarrow> Inl (MySQLError, s1)
         | NoRow \<Rightarrow> Inr (False, s1)
         | Row r \<Rightarrow> scan_levels 5 r s1))"

text \<open>The maintain phase of gradual mode (lines 532-559).\<close>

definition maintain_gradual :: "cycle_input \<Rightarrow> fermentation_thread \<Rightarrow> step" where
  "maintain_gradual inp s =
    (if duration s > 0 \<and> (now inp - timestamp s) div 60 \<ge> duration s then
       (case get_next_level (fermentation inp) s of
          Inl (e, s') \<Rightarrow> Raise e s'
        | Inr (bNext, s') \<Rightarrow> (if bNext then keep_going s' else end_thread s'))
     else keep_going s)"

text \<open>The decision step of a gradual-mode cycle (lines 513-559).\<close>

definition gradual_decide :: "cycle_input \<Rightarrow> fermentation_thread \<Rightarrow> step" where
  "gradual_decide inp s =
    (if timestamp s = 0 then
       (case heating_up (now inp) s of Inl (e, s') \<Rightarrow> Raise e s' | Inr s' \<Rightarrow> Continue s')
     else maintain_gradual inp s)"

text \<open>The body of the \<open>while\<close> loop of \<open>GradualMode.run\<close> (lines 502-572).\<close>

definition gradual_cycle :: "cycle_input \<Rightarrow> fermentation_thread \<Rightarrow> step" where
  "gradual_cycle inp s =
    (case read_temperatures (temps inp) s of
       Inl (e, s') \<Rightarrow> Raise e s'
     | Inr s1 \<Rightarrow>
         (if log_fails inp then Raise MySQLError s1 else gradual_decide inp s1))"

subsection \<open>The run loop\<close>

text \<open>
  How far a thread has got on a list of cycle inputs: still in its loop (\<open>Running\<close>),
  returned from \<open>run\<close> after the configuration-reset epilogue (\<open>Finished\<close>), or dead
  with an exception that left \<open>run\<close> (\<open>Raised\<close>).
\<close>

datatype outcome =
  Running fermentation_thread
  | Finished fermentation_thread
  | Raised error fermentation_thread

fun final :: "outcome \<Rightarrow> fermentation_thread" where
  "final (Running s) = s"
| "final (Finished s) = s"
| "final (Raised e s) = s"

text \<open>"reset configuration" (lines 398-405 and 574-581), reached when the loop is left.\<close>

definition epilogue :: "cycle_input \<Rightarrow> fermentation_thread \<Rightarrow> outcome" where
  "epilogue inp s = (if reset_fails inp then Raised MySQLError s else Finished s)"

text \<open>
  \<open>ConstantMode.run\<close> (lines 311-405): \<open>while not self.event.is_set()\<close>; \<open>stop\<close> of an
  input is the value of \<open>is_set()\<close> at that test.
\<close>

fun constant_run :: "fermentation_thread \<Rightarrow> cycle_input list \<Rightarrow> outcome" where
  "constant_run s [] = Running s"
| "constant_run s (inp # rest) =
    (if stop inp then epilogue inp s
     else (case constant_cycle inp s of
             Continue s' \<Rightarrow> constant_run s' rest
           | Break s' \<Rightarrow> epilogue inp s'
           | Raise e s' \<Rightarrow> Raised e s'))"

text \<open>\<open>GradualMode.run\<close> (lines 488-581).\<close>

fun gradual_run :: "fermentation_thread \<Rightarrow> cycle_input list \<Rightarrow> outcome" where
  "gradual_run s [] = Running s"
| "gradual_run s (inp # rest) =
    (if stop inp then epilogue inp s
     else (case gradual_cycle inp s of
             Continue s' \<Rightarrow> gradual_run s' rest
           | Break s' \<Rightarrow> epilogue inp s'
           | Raise e s' \<Rightarrow> Raised e s'))"

text \<open>A cycle in which nothing fails: every sensor reads \<open>t\<close> at clock \<open>n\<close>.\<close>

definition cyc :: "real \<Rightarrow> int \<Rightarrow> cycle_input" where
  "cyc t n =
    \<lparr>stop = False, temps = (\<lambda>_. Temp t), now = n, log_fails = False,
     fermentation = NoRow, reset_fails = False\<rparr>"

text \<open>The stop event is set when the loop tests it.\<close>

definition cancelled :: cycle_input where
  "cancelled = (cyc 0 0)\<lparr>stop := True\<rparr>"

subsection \<open>The supervisor\<close>

text \<open>The module constants for the controller states and modes (lines 62-69).\<close>

definition FPI_STATE_OFF :: int where
  "FPI_STATE_OFF = 0"

definition FPI_STATE_ON :: int where
  "FPI_STATE_ON = 1"

definition FPI_MODE_IDLE :: int where
  "FPI_MODE_IDLE = 0"

definition FPI_MODE_CONSTANT :: int where
  "FPI_MODE_CONSTANT = 1"

definition FPI_MODE_GRADUAL :: int where
  "FPI_MODE_GRADUAL = 2"

text \<open>
  \<open>read_configuration\<close> (lines 614-640): the loop over the rows \<open>(item, value)\<close> of the
  \<open>config\<close> table, values already converted by \<open>int\<close>; a \<open>state\<close> row with the value
  \<open>FPI_STATE_OFF\<close> fills in the defaults and leaves the loop.
\<close>

fun read_rows :: "(string \<rightharpoonup> int) \<Rightarrow> (string \<times> int) list \<Rightarrow> (string \<rightharpoonup> int)" where
  "read_rows config [] = config"
| "read_rows config ((item, v) # rows) =
    (if item = ''state'' then
       (if v = FPI_STATE_OFF then
          config(''state'' \<mapsto> v, ''mode'' \<mapsto> FPI_MODE_IDLE, ''cycle'' \<mapsto> 10, ''log'' \<mapsto> 0)
        else read_rows (config(''state'' \<mapsto> v)) rows)
     else if item = ''mode'' then read_rows (config(''mode'' \<mapsto> v)) rows
     else if item = ''cycle'' then read_rows (config(''cycle'' \<mapsto> v)) rows
     else if item = ''log'' then read_rows (config(''log'' \<mapsto> v)) rows
     else read_rows config rows)"

definition read_configuration :: "(string \<times> int) list \<Rightarrow> (string \<rightharpoonup> int)" where
  "read_configuration rows = read_rows Map.empty rows"

text \<open>
  The supervisor is the loop of \<open>main\<close> (lines 671-708) together with the signal
  handler \<open>on_exit\<close> (lines 588-612), both run by the main thread. Mode threads are
  named by the order of their creation. The state holds the global \<open>thread\<close>, the
  threads that have been started and whose \<open>run\<close> has not ended (\<open>alive\<close>), the threads
  whose stop event is set (\<open>events\<close>), the local variables \<open>config\<close> and \<open>conn\<close> of
  \<open>main\<close> (\<open>None\<close>: not bound yet), whether the main thread is inside a
  \<open>while thread.is_alive(): thread.join(..)\<close> loop, whether that loop is \<open>on_exit\<close>'s,
  and the exception that has ended the main thread, if any.
\<close>

record supervisor =
  thread :: "nat option"
  alive :: "nat set"
  events :: "nat set"
  created :: nat
  config :: "(string \<rightharpoonup> int) option"
  conn :: "pyval option"
  joining :: bool
  exiting :: bool
  ended :: "error option"

definition supervisor_init :: supervisor where
  "supervisor_init =
    \<lparr>thread = None, alive = {}, events = {}, created = 0, config = None, conn = None,
     joining = False, exiting = False, ended = None\<rparr>"

text \<open>What one poll of the database gives \<open>read_configuration\<close>.\<close>

datatype poll = DbFailure | Rows "(string \<times> int) list"

text \<open>
  What can happen next: the main thread starts a loop iteration (with the result of
  the poll and the exception the constructor of a mode thread would raise, if any), a
  \<open>join\<close> with a timeout returns, the \<open>run\<close> method of a thread ends (by return or by
  exception), or a termination signal arrives.
\<close>

datatype sup_event =
  Poll poll "error option"
  | JoinTimeout
  | RunEnds nat
  | Signal

text \<open>\<open>thread = ..Mode(..)\<close> followed by \<open>thread.start()\<close> (lines 691-698).\<close>

definition start_thread ::
  "error option \<Rightarrow> supervisor \<Rightarrow> (error \<times> supervisor) + supervisor" where
  "start_thread ctor s =
    (case ctor of
       Some e \<Rightarrow> Inl (e, s)
     | None \<Rightarrow>
         Inr (s\<lparr>thread := Some (created s), alive := insert (created s) (alive s),
                created := Suc (created s)\<rparr>))"

text \<open>
  The test of \<open>while thread.is_alive()\<close> and, when the thread is dead, the statement
  \<open>thread = None\<close> after the loop (lines 683-685 and 602-604).
\<close>

definition join_test :: "supervisor \<Rightarrow> supervisor" where
  "join_test s =
    (case thread s of
       None \<Rightarrow> s\<lparr>joining := False\<rparr>
     | Some h \<Rightarrow> (if h \<in> alive s then s else s\<lparr>thread := None, joining := False\<rparr>))"

text \<open>The body of the \<open>try\<close> statement (lines 673-700), up to the join loop.\<close>

definition try_body ::
  "poll \<Rightarrow> error option \<Rightarrow> supervisor \<Rightarrow> (error \<times> supervisor) + supervisor" where
  "try_body p ctor s =
    (case p of
       DbFailure \<Rightarrow> Inl (MySQLError, s)
     | Rows rows \<Rightarrow>
         (let cfg = read_configuration rows; s1 = s\<lparr>config := Some cfg\<rparr>
          in (case cfg ''state'' of
                None \<Rightarrow> Inl (KeyError, s1)
              | Some st \<Rightarrow>
                  (if st = FPI_STATE_OFF then
                     (case thread s1 of
                        None \<Rightarrow> Inr s1
                      | Some h \<Rightarrow>
                          Inr (join_test (s1\<lparr>events := insert h (events s1), joining := True\<rparr>)))
                   else if st = FPI_STATE_ON then
                     (case thread s1 of
                        Some h \<Rightarrow> Inr s1
                      | None \<Rightarrow>
                          (case cfg ''mode'' of
                             None \<Rightarrow> Inl (KeyError, s1)
                           | Some m \<Rightarrow>
                               (if m = FPI_MODE_IDLE then start_thread ctor s1
                                else if m = FPI_MODE_CONSTANT \<or> m = FPI_MODE_GRADUAL then
                                  (case cfg ''log'' of
                                     None \<Rightarrow> Inl (KeyError, s1)
                                   | Some l \<Rightarrow> start_thread ctor s1)
                                else Inr s1)))
                   else Inr s1))))"

text \<open>
  \<open>sleep(float(config['cycle']))\<close> (line 708); \<open>sleep\<close> raises \<open>IOError\<close> on a negative
  length.
\<close>

definition sleep_cycle :: "supervisor \<Rightarrow> supervisor" where
  "sleep_cycle s =
    (case config s of
       None \<Rightarrow> s\<lparr>ended := Some UnboundLocalError\<rparr>
     | Some cfg \<Rightarrow>
         (case cfg ''cycle'' of
            None \<Rightarrow> s\<lparr>ended := Some KeyError\<rparr>
          | Some c \<Rightarrow> (if c < 0 then s\<lparr>ended := Some IOError\<rparr> else s)))"

text \<open>Python's truth value of an object, as \<open>if conn:\<close> takes it.\<close>

fun truthy :: "pyval \<Rightarrow> bool" where
  "truthy (PyInt n) = (n \<noteq> 0)"
| "truthy (PyStr t) = (t \<noteq> [])"
| "truthy PyNone = False"
| "truthy (PyObject k) = True"

text \<open>
  The handler \<open>except mdb.Error as e\<close> (lines 702-706), for an error that carries a
  code and a message: it logs, then tests the local variable \<open>conn\<close>, which no
  statement of \<open>main\<close> before this test assigns.
\<close>

definition on_mdb_error :: "supervisor \<Rightarrow> supervisor" where
  "on_mdb_error s =
    (case conn s of
       None \<Rightarrow> s\<lparr>ended := Some UnboundLocalError\<rparr>
     | Some c \<Rightarrow> sleep_cycle (if truthy c then s\<lparr>conn := Some PyNone\<rparr> else s))"

text \<open>
  One iteration of \<open>while True\<close> (lines 671-708). An iteration that is inside the join
  loop goes on when a \<open>JoinTimeout\<close> finds the thread dead.
\<close>

definition main_iteration :: "poll \<Rightarrow> error option \<Rightarrow> supervisor \<Rightarrow> supervisor" where
  "main_iteration p ctor s =
    (case try_body p ctor s of
       Inl (e, s') \<Rightarrow> (if e = MySQLError then on_mdb_error s' else s'\<lparr>ended := Some e\<rparr>)
     | Inr s' \<Rightarrow> (if joining s' then s' else sleep_cycle s'))"

text \<open>
  After a join loop has ended: \<open>on_exit\<close> goes on to \<open>heater_off()\<close>, \<open>GPIO.cleanup()\<close>
  and \<open>sys.exit(0)\<close>; the loop of \<open>main\<close> goes on to its \<open>sleep\<close>.
\<close>

definition after_join :: "supervisor \<Rightarrow> supervisor" where
  "after_join s =
    (if joining s then s
     else if exiting s then s\<lparr>ended := Some SystemExit\<rparr>
     else sleep_cycle s)"

text \<open>\<open>on_exit\<close> (lines 588-612), up to its join loop.\<close>

definition on_exit :: "supervisor \<Rightarrow> supervisor" where
  "on_exit s =
    (case thread s of
       None \<Rightarrow> s\<lparr>exiting := True, joining := False, ended := Some SystemExit\<rparr>
     | Some h \<Rightarrow>
         after_join
           (join_test (s\<lparr>events := insert h (events s), joining := True, exiting := True\<rparr>)))"

text \<open>
  One event. The main thread is followed until an exception ends it; what a signal
  handler does after that is not modelled, and a thread's \<open>run\<close> can still end.
\<close>

definition main_step :: "sup_event \<Rightarrow> supervisor \<Rightarrow> supervisor" where
  "main_step ev s =
    (case ev of
       RunEnds h \<Rightarrow> s\<lparr>alive := alive s - {h}\<rparr>
     | Poll p ctor \<Rightarrow>
         (if ended s \<noteq> None \<or> joining s then s else main_iteration p ctor s)
     | JoinTimeout \<Rightarrow>
         (if ended s \<noteq> None \<or> \<not> joining s then s else after_join (join_test s))
     | Signal \<Rightarrow> (if ended s \<noteq> None then s else on_exit s))"

text \<open>The supervisor after a sequence of events, from the start of \<open>main\<close>.\<close>

definition main_run :: "sup_event list \<Rightarrow> supervisor" where
  "main_run evs = foldl (\<lambda>s ev. main_step ev s) supervisor_init evs"

subsection \<open>Invariants\<close>

text \<open>
  The stored heater state of a live thread mirrors the relay line: it is \<open>HEATER_OFF\<close>,
  or it is \<open>HEATER_ON\<close> and the line is \<open>LOW\<close>.
\<close>

definition mirrors :: "fermentation_thread \<Rightarrow> bool" where
  "mirrors s = (heater s = HEATER_OFF \<or> (heater s = HEATER_ON \<and> gpio s = LOW))"



text \<open>
  A thread of constant mode whose computed margin \<open>target - overshoot\<close> is at most the
  target (as it is for a target that is a double and an overshoot that is not
  negative), whose stored heater state is \<open>HEATER_OFF\<close> once the attained-timestamp is
  set, and whose last primary reading is at most the target while the
  attained-timestamp is not set.
\<close>

definition settled :: "fermentation_thread \<Rightarrow> bool" where
  "settled s =
    (fsub (target s) (overshoot s) \<le> target s
     \<and> (if timestamp s = 0 then
          (case sensors s of [] \<Rightarrow> True | p # ps \<Rightarrow> cur p \<le> target s)
        else heater s = HEATER_OFF))"

text \<open>
  The stored heater state and the relay line agree: off and \<open>HIGH\<close>, or on and \<open>LOW\<close>.
  This holds of a thread created while the relay line is \<open>HIGH\<close>.
\<close>

definition follows_line :: "fermentation_thread \<Rightarrow> bool" where
  "follows_line s =
    ((heater s = HEATER_OFF \<and> gpio s = HIGH) \<or> (heater s = HEATER_ON \<and> gpio s = LOW))"

subsection \<open>Examples\<close>

text \<open>The state a step ends in, whichever way it ends.\<close>

fun step_state :: "step \<Rightarrow> fermentation_thread" where
  "step_state (Continue s) = s"
| "step_state (Break s) = s"
| "step_state (Raise e s) = s"

text \<open>
  The example of the specification: constant mode, one sensor, target 20.0, overshoot
  0.5, no duration, cycle 10 s, relay line \<open>HIGH\<close> (heater off) at creation, and the
  readings 18.0, 18.5, 19.6, 19.9, 20.0 at the clock values 1000, 1010, ...
\<close>

definition example_thread :: fermentation_thread where
  "example_thread = Mode_init HIGH 1 (Some (Some 20, None)) (Some 0.5) (Some 10)"

definition example_readings :: "cycle_input list" where
  "example_readings = [cyc 18 1000, cyc 18.5 1010, cyc 19.6 1020, cyc 19.9 1030, cyc 20 1040]"

text \<open>
  A fermentation record with two levels, 20.0 for 1 minute and then 30.0 for 1 minute,
  and the other three level pairs empty.
\<close>

definition two_levels :: "(real option \<times> int option) list" where
  "two_levels = [(Some 20, Some 1), (Some 30, Some 1), (None, None), (None, None), (None, None)]"

text \<open>
  The rows of the \<open>config\<close> table with the controller switched on in constant mode
  for fermentation 7, and with the controller switched off.
\<close>

definition config_on :: "(string \<times> int) list" where
  "config_on = [(''state'', 1), (''mode'', 1), (''cycle'', 10), (''log'', 7)]"

definition config_off :: "(string \<times> int) list" where
  "config_off = [(''state'', 0), (''mode'', 1), (''cycle'', 10), (''log'', 7)]"

section \<open>Properties\<close>

subsection \<open>Rounding to a double\<close>

lemma pow2_powr: "pow2 e = 2 powr (of_int e)"
  by (simp add: pow2_def powr_real_of_int field_simps)

lemma binade_eq:
  assumes "pow2 k \<le> \<bar>x\<bar>" and "\<bar>x\<bar> < pow2 (k + 1)"
  shows "binade x = k"
proof -
  have "0 < pow2 k" by (simp add: pow2_def)
  with assms(1) have "0 < \<bar>x\<bar>" by linarith
  moreover have "2 powr (of_int k) \<le> \<bar>x\<bar> \<and> \<bar>x\<bar> < 2 powr (of_int k + 1)"
    using assms by (simp add: pow2_powr add.commute)
  ultimately show ?thesis
    unfolding binade_def by (subst floor_log_eq_powr_iff) simp_all
qed

text \<open>Rounding a real whose binary exponent is known.\<close>

lemma round_double_in_binade:
  assumes "pow2 k \<le> \<bar>x\<bar>" and "\<bar>x\<bar> < pow2 (k + 1)" and "- 1022 \<le> k"
  shows "round_double x = of_int (round_half_even (x / pow2 (k - 52))) * pow2 (k - 52)"
proof -
  have "0 < pow2 k" by (simp add: pow2_def)
  with assms(1) have "x \<noteq> 0" by auto
  moreover have "max (binade x - 52) (- 1074) = k - 52"
    using binade_eq [OF assms(1,2)] assms(3) by simp
  ultimately show ?thesis by (simp add: round_double_def Let_def)
qed

text \<open>
  The subtractions of the examples: \<open>20.0 - 0.5\<close> and \<open>20.0 - (-1.0)\<close> are exact,
  \<open>20.0 - 0.10\<close> is the double 19.9, and \<open>15.3 - 0.3\<close> is the double 15.0, although the
  doubles 15.3 and 0.3 differ by more than 15.
\<close>

lemma fsub_20_half: "fsub 20 (1 / 2) = 39 / 2"
  unfolding fsub_def
  by (subst round_double_in_binade [of 4]) (simp_all add: pow2_def round_half_even_def)

lemma fsub_20_minus_1: "fsub 20 (- 1) = 21"
  unfolding fsub_def
  by (subst round_double_in_binade [of 4]) (simp_all add: pow2_def round_half_even_def)

lemma round_double_tenth: "round_double (1 / 10) = 7205759403792794 / 2 ^ 56"
  by (subst round_double_in_binade [of "- 4"]) (simp_all add: pow2_def round_half_even_def)

lemma fsub_20_tenth: "fsub 20 (round_double (1 / 10)) = 5601352036542054 / 2 ^ 48"
  unfolding fsub_def round_double_tenth
  by (subst round_double_in_binade [of 4]) (simp_all add: pow2_def round_half_even_def)

lemma round_double_15_3: "round_double (153 / 10) = 8613134287346074 / 2 ^ 49"
  by (subst round_double_in_binade [of 3]) (simp_all add: pow2_def round_half_even_def)

lemma round_double_0_3: "round_double (3 / 10) = 5404319552844595 / 2 ^ 54"
  by (subst round_double_in_binade [of "- 2"]) (simp_all add: pow2_def round_half_even_def)

lemma fsub_15_3: "fsub (round_double (153 / 10)) (round_double (3 / 10)) = 15"
  unfolding fsub_def round_double_15_3 round_double_0_3
  by (subst round_double_in_binade [of 3]) (simp_all add: pow2_def round_half_even_def)

lemma exact_15_3: "15 < round_double (153 / 10) - round_double (3 / 10)"
  unfolding round_double_15_3 round_double_0_3 by simp

lemma below_15_3: "15 < round_double (153 / 10)"
  unfolding round_double_15_3 by simp

text \<open>
  \<open>18.2 - 0.1\<close> is the double 18.099999999999998, which is \<open>5094697078462873 / 2 ^ 48\<close>
  and lies below the exact difference of the doubles 18.2 and 0.1.
\<close>

lemma round_double_18_2: "round_double (91 / 5) = 5122844576133939 / 2 ^ 48"
  by (subst round_double_in_binade [of 4]) (simp_all add: pow2_def round_half_even_def)

lemma fsub_18_2:
  "fsub (round_double (91 / 5)) (round_double (1 / 10)) = 5094697078462873 / 2 ^ 48"
  unfolding fsub_def round_double_18_2 round_double_tenth
  by (subst round_double_in_binade [of 4]) (simp_all add: pow2_def round_half_even_def)

lemma exact_18_2:
  "5094697078462873 / 2 ^ 48 < round_double (91 / 5) - round_double (1 / 10)"
  unfolding round_double_18_2 round_double_tenth by simp

lemma below_18_2: "5094697078462873 / 2 ^ 48 < round_double (91 / 5)"
  unfolding round_double_18_2 by simp

subsection \<open>Name lookup and the heater\<close>

lemma load_HEATER_OFF: "load_global ''HEATER_OFF'' = None"
  by (simp add: load_global_def module_globals_def)

lemma load_sefl: "load_global ''sefl'' = None"
  by (simp add: load_global_def module_globals_def)

lemma heater_off_eq: "heater_off s = Inl (NameError, s\<lparr>gpio := HIGH\<rparr>)"
  by (simp add: heater_off_def load_HEATER_OFF)

lemma HEATER_ON_neq_OFF [simp]: "HEATER_ON \<noteq> HEATER_OFF" "HEATER_OFF \<noteq> HEATER_ON"
  by (simp_all add: HEATER_ON_def HEATER_OFF_def)

text \<open>
  C10. Every call of \<open>_heater_off\<close> sets the relay line to \<open>HIGH\<close> (relay off) and then
  raises \<open>NameError\<close>, because the name \<open>HEATER_OFF\<close> is not bound at module level: the
  call never returns normally, and the stored heater state is what it was before the
  call.
\<close>

theorem heater_off_always_raises:
  "\<exists>s'. heater_off s = Inl (NameError, s') \<and> gpio s' = HIGH \<and> heater s' = heater s"
  by (simp add: heater_off_def load_global_def module_globals_def)

subsection \<open>What a cycle leaves unchanged\<close>

lemma read_temperatures_frame:
  "read_temperatures hw s = Inr s' \<Longrightarrow> \<exists>ps. s' = s\<lparr>sensors := ps\<rparr>"
  "read_temperatures hw s = Inl (e, s') \<Longrightarrow> \<exists>ps. s' = s\<lparr>sensors := ps\<rparr>"
  by (auto simp: read_temperatures_def split: prod.splits option.splits)

lemma keep_going_Continue: "keep_going s = Continue s' \<Longrightarrow> s' = s"
  by (auto simp: keep_going_def heater_off_eq split: list.splits if_splits)

lemma keep_going_not_Break: "keep_going s \<noteq> Break s'"
  by (auto simp: keep_going_def heater_off_eq split: list.splits if_splits)

lemma end_thread_not_Continue: "end_thread s \<noteq> Continue s'"
  by (simp add: end_thread_def heater_off_eq)

lemma end_thread_Break: "end_thread s = Break s' \<Longrightarrow> s' = s \<and> heater s \<noteq> HEATER_ON"
  by (auto simp: end_thread_def heater_off_eq split: if_splits)

lemma scan_levels_frame:
  "scan_levels n row s = Inr (b, s') \<Longrightarrow>
    heater s' = heater s \<and> gpio s' = gpio s \<and> state s' = state s
      \<and> timestamp s' = timestamp s \<and> sensors s' = sensors s"
  by (induction n row s rule: scan_levels.induct)
    (auto simp: Let_def split: option.splits if_splits)

lemma scan_levels_frame_raise:
  "scan_levels n row s = Inl (e, s') \<Longrightarrow> s' = s"
  by (induction n row s rule: scan_levels.induct)
    (auto simp: Let_def split: option.splits if_splits)

lemma get_next_level_frame:
  "get_next_level fetch s = Inr (b, s') \<Longrightarrow>
    heater s' = heater s \<and> gpio s' = gpio s \<and> state s' = state s \<and> timestamp s' = 0
      \<and> sensors s' = sensors s"
  by (cases fetch) (auto simp: get_next_level_def dest: scan_levels_frame)

lemma get_next_level_frame_raise:
  "get_next_level fetch s = Inl (e, s') \<Longrightarrow>
    heater s' = heater s \<and> gpio s' = gpio s \<and> state s' = state s \<and> timestamp s' = 0"
  by (cases fetch) (auto simp: get_next_level_def dest: scan_levels_frame_raise)

lemma constant_cycle_Continue:
  "constant_cycle inp s = Continue s' \<Longrightarrow>
    \<exists>ps. constant_decide (now inp) (s\<lparr>sensors := ps\<rparr>) = Continue s'"
  by (auto simp: constant_cycle_def dest!: read_temperatures_frame(1)
      split: sum.splits prod.splits if_splits)

lemma gradual_cycle_Continue:
  "gradual_cycle inp s = Continue s' \<Longrightarrow>
    \<exists>ps. gradual_decide inp (s\<lparr>sensors := ps\<rparr>) = Continue s'"
  by (auto simp: gradual_cycle_def dest!: read_temperatures_frame(1)
      split: sum.splits prod.splits if_splits)

subsection \<open>The stored heater state mirrors the relay line\<close>

lemma mirrors_sensors [simp]: "mirrors (s\<lparr>sensors := ps\<rparr>) = mirrors s"
  by (simp add: mirrors_def)

lemma mirrors_init: "mirrors (Mode_init line n row ov cy)"
  by (simp add: Mode_init_def FermentationThread_init_def mirrors_def Let_def
      split: option.splits prod.splits)

lemma heating_up_mirrors: "mirrors s \<Longrightarrow> heating_up ts s = Inr s' \<Longrightarrow> mirrors s'"
  by (auto simp: heating_up_def heater_on_def heater_off_eq mirrors_def Let_def
      split: list.splits if_splits)

lemma constant_decide_mirrors:
  "mirrors s \<Longrightarrow> constant_decide ts s = Continue s' \<Longrightarrow> mirrors s'"
  by (auto simp: constant_decide_def maintain_constant_def end_thread_not_Continue
      dest: heating_up_mirrors keep_going_Continue split: if_splits sum.splits prod.splits)

lemma maintain_gradual_mirrors:
  assumes "mirrors s" and "maintain_gradual inp s = Continue s'"
  shows "mirrors s'"
proof (cases "duration s > 0 \<and> (now inp - timestamp s) div 60 \<ge> duration s")
  case False
  with assms show ?thesis by (auto simp: maintain_gradual_def dest: keep_going_Continue)
next
  case True
  with assms(2) obtain b s1 where g: "get_next_level (fermentation inp) s = Inr (b, s1)"
    and k: "(if b then keep_going s1 else end_thread s1) = Continue s'"
    by (auto simp: maintain_gradual_def split: sum.splits prod.splits)
  from k have "s' = s1"
    by (auto simp: end_thread_not_Continue dest: keep_going_Continue split: if_splits)
  with get_next_level_frame [OF g] assms(1) show ?thesis by (simp add: mirrors_def)
qed

lemma gradual_decide_mirrors:
  "mirrors s \<Longrightarrow> gradual_decide inp s = Continue s' \<Longrightarrow> mirrors s'"
  by (auto simp: gradual_decide_def dest: heating_up_mirrors maintain_gradual_mirrors
      split: if_splits sum.splits prod.splits)

lemma constant_cycle_mirrors:
  assumes "mirrors s" and "constant_cycle inp s = Continue s'"
  shows "mirrors s'"
proof -
  obtain ps where "constant_decide (now inp) (s\<lparr>sensors := ps\<rparr>) = Continue s'"
    using constant_cycle_Continue [OF assms(2)] by blast
  moreover have "mirrors (s\<lparr>sensors := ps\<rparr>)" using assms(1) by simp
  ultimately show ?thesis by (rule constant_decide_mirrors [rotated])
qed

lemma gradual_cycle_mirrors:
  assumes "mirrors s" and "gradual_cycle inp s = Continue s'"
  shows "mirrors s'"
proof -
  obtain ps where "gradual_decide inp (s\<lparr>sensors := ps\<rparr>) = Continue s'"
    using gradual_cycle_Continue [OF assms(2)] by blast
  moreover have "mirrors (s\<lparr>sensors := ps\<rparr>)" using assms(1) by simp
  ultimately show ?thesis by (rule gradual_decide_mirrors [rotated])
qed

text \<open>
  Along every run of a mode thread, from its creation on, the state of the thread
  while it is in its loop mirrors the relay line.
\<close>

lemma constant_run_mirrors:
  "mirrors s \<Longrightarrow> constant_run s tr = Running s' \<Longrightarrow> mirrors s'"
proof (induction tr arbitrary: s)
  case Nil
  then show ?case by simp
next
  case (Cons inp tr)
  show ?case
  proof (cases "constant_cycle inp s")
    case (Continue s1)
    with Cons.prems have "constant_run s1 tr = Running s'"
      by (simp add: epilogue_def split: if_splits)
    moreover have "mirrors s1" using Cons.prems(1) Continue by (rule constant_cycle_mirrors)
    ultimately show ?thesis by (rule Cons.IH [rotated])
  next
    case (Break s1)
    with Cons.prems show ?thesis by (simp add: epilogue_def split: if_splits)
  next
    case (Raise e s1)
    with Cons.prems show ?thesis by (simp add: epilogue_def split: if_splits)
  qed
qed

lemma gradual_run_mirrors:
  "mirrors s \<Longrightarrow> gradual_run s tr = Running s' \<Longrightarrow> mirrors s'"
proof (induction tr arbitrary: s)
  case Nil
  then show ?case by simp
next
  case (Cons inp tr)
  show ?case
  proof (cases "gradual_cycle inp s")
    case (Continue s1)
    with Cons.prems have "gradual_run s1 tr = Running s'"
      by (simp add: epilogue_def split: if_splits)
    moreover have "mirrors s1" using Cons.prems(1) Continue by (rule gradual_cycle_mirrors)
    ultimately show ?thesis by (rule Cons.IH [rotated])
  next
    case (Break s1)
    with Cons.prems show ?thesis by (simp add: epilogue_def split: if_splits)
  next
    case (Raise e s1)
    with Cons.prems show ?thesis by (simp add: epilogue_def split: if_splits)
  qed
qed

subsection \<open>The climb phase below the overshoot margin\<close>

lemma heating_up_below_margin:
  assumes "sensors s = p # ps" and "cur p < fsub (target s) (overshoot s)"
    and "mirrors s"
  shows "\<exists>s'. heating_up ts s = Inr s' \<and> heater s' = HEATER_ON \<and> gpio s' = LOW"
  using assms by (auto simp: heating_up_def heater_on_def mirrors_def Let_def)

text \<open>
  C4 (amended). In a climb-phase cycle (attained-timestamp still 0) of constant or
  gradual mode whose primary sensor reads below the margin the code computes, the
  float subtraction \<open>target - overshoot\<close> (the exact difference rounded to the nearest
  double), the decision step ends with the heater on (stored state \<open>HEATER_ON\<close>, relay
  line \<open>LOW\<close>) and the loop goes on, whether the heater was on or off before.
  \<open>mirrors\<close> holds of every state a running thread reaches (\<open>constant_run_mirrors\<close>,
  \<open>gradual_run_mirrors\<close>, \<open>mirrors_init\<close>).
\<close>

theorem climb_below_margin_heater_on:
  assumes "timestamp s = 0" and "sensors s = p # ps"
    and "cur p < fsub (target s) (overshoot s)" and "mirrors s"
  shows "(\<exists>s'. constant_decide ts s = Continue s' \<and> heater s' = HEATER_ON \<and> gpio s' = LOW)
       \<and> (\<exists>s'. gradual_decide inp s = Continue s' \<and> heater s' = HEATER_ON \<and> gpio s' = LOW)"
proof -
  obtain s1 where "heating_up ts s = Inr s1" "heater s1 = HEATER_ON" "gpio s1 = LOW"
    using heating_up_below_margin [OF assms(2-4)] by blast
  moreover obtain s2 where "heating_up (now inp) s = Inr s2" "heater s2 = HEATER_ON"
    "gpio s2 = LOW"
    using heating_up_below_margin [OF assms(2-4)] by blast
  ultimately show ?thesis
    using assms(1) by (simp add: constant_decide_def gradual_decide_def)
qed

text \<open>
  The theorem at two states of a thread with target 20.0 and overshoot 0.5 whose
  primary sensor reads 18.0: heater off before the cycle, and heater on before it.
\<close>

theorem climb_below_margin_heater_on_witness:
  "(\<exists>s'. constant_decide 1000
            ((Mode_init HIGH 1 (Some (Some 20, None)) (Some 0.5) (Some 10))
               \<lparr>sensors := [\<lparr>cur = 18, prev = 0\<rparr>]\<rparr>) = Continue s'
          \<and> heater s' = HEATER_ON \<and> gpio s' = LOW)
   \<and> (\<exists>s'. gradual_decide (cyc 18.5 1010)
            (heater_on ((Mode_init HIGH 1 (Some (Some 20, None)) (Some 0.5) (Some 10))
               \<lparr>sensors := [\<lparr>cur = 18.5, prev = 18\<rparr>]\<rparr>)) = Continue s'
          \<and> heater s' = HEATER_ON \<and> gpio s' = LOW)"
proof -
  let ?s = "(Mode_init HIGH 1 (Some (Some 20, None)) (Some 0.5) (Some 10))
               \<lparr>sensors := [\<lparr>cur = 18, prev = 0\<rparr>]\<rparr>"
  let ?t = "heater_on ((Mode_init HIGH 1 (Some (Some 20, None)) (Some 0.5) (Some 10))
               \<lparr>sensors := [\<lparr>cur = 18.5, prev = 18\<rparr>]\<rparr>)"
  have a: "timestamp ?s = 0" "sensors ?s = \<lparr>cur = 18, prev = 0\<rparr> # []"
    "cur \<lparr>cur = 18, prev = 0\<rparr> < fsub (target ?s) (overshoot ?s)" "mirrors ?s"
    by (simp_all add: Mode_init_def FermentationThread_init_def mirrors_def fsub_20_half)
  have b: "timestamp ?t = 0" "sensors ?t = \<lparr>cur = 18.5, prev = 18\<rparr> # []"
    "cur \<lparr>cur = 18.5, prev = 18\<rparr> < fsub (target ?t) (overshoot ?t)" "mirrors ?t"
    by (simp_all add: Mode_init_def FermentationThread_init_def mirrors_def heater_on_def
        fsub_20_half)
  show ?thesis
    using climb_below_margin_heater_on [OF a, of 1000 "cyc 18.5 1010"]
      climb_below_margin_heater_on [OF b, of 1010 "cyc 18.5 1010"]
    by simp
qed

text \<open>
  C4 (counterexample). With the exact difference in place of the computed margin the
  claim fails, in constant and in gradual mode.

  Target 15.3 and overshoot 0.3 as doubles, first reading 15.0: the attained-timestamp
  is 0 and the reading is below the exact difference of target and overshoot, but the
  float subtraction gives 15.0, the test \<open>15.0 < 15.0\<close> fails, the reading has not
  fallen, and the cycle ends with the heater off (stored state \<open>HEATER_OFF\<close>, relay
  line \<open>HIGH\<close>).

  Target 18.2 and overshoot 0.1 as doubles, first reading the double
  18.099999999999998: the reading is below the exact difference of the two doubles
  and below the decimal difference 18.1, but the float subtraction gives the reading
  itself, and the cycle ends with the heater off.
\<close>

theorem climb_exact_margin_counterexample:
  "(\<exists>s. constant_run
          (Mode_init HIGH 1 (Some (Some (round_double 15.3), None))
             (Some (round_double 0.3)) (Some 10))
          [cyc 15 1000] = Running s
        \<and> timestamp s = 0 \<and> sensors s = [\<lparr>cur = 15, prev = 0\<rparr>]
        \<and> 15 < target s - overshoot s
        \<and> heater s = HEATER_OFF \<and> gpio s = HIGH)
   \<and> (\<exists>s. gradual_run
          (Mode_init HIGH 1 (Some (Some (round_double 15.3), None))
             (Some (round_double 0.3)) (Some 10))
          [cyc 15 1000] = Running s
        \<and> timestamp s = 0 \<and> sensors s = [\<lparr>cur = 15, prev = 0\<rparr>]
        \<and> 15 < target s - overshoot s
        \<and> heater s = HEATER_OFF \<and> gpio s = HIGH)
   \<and> (\<exists>s. constant_run
          (Mode_init HIGH 1 (Some (Some (round_double 18.2), None))
             (Some (round_double 0.1)) (Some 10))
          [cyc (5094697078462873 / 2 ^ 48) 1000] = Running s
        \<and> timestamp s = 0
        \<and> sensors s = [\<lparr>cur = 5094697078462873 / 2 ^ 48, prev = 0\<rparr>]
        \<and> 5094697078462873 / 2 ^ 48 < target s - overshoot s
        \<and> 5094697078462873 / 2 ^ 48 < (18.2 :: real) - 0.1
        \<and> heater s = HEATER_OFF \<and> gpio s = HIGH)"
  using exact_15_3 below_15_3 exact_18_2 below_18_2
  by (simp add: Mode_init_def FermentationThread_init_def cyc_def constant_cycle_def
      gradual_cycle_def read_temperatures_def constant_decide_def gradual_decide_def
      heating_up_def fsub_15_3 fsub_18_2 HEATER_ON_def HEATER_OFF_def)

subsection \<open>Evaluating runs\<close>

lemmas run_eval =
  example_thread_def example_readings_def two_levels_def
  Mode_init_def FermentationThread_init_def cyc_def cancelled_def
  constant_cycle_def gradual_cycle_def read_temperatures_def
  constant_decide_def gradual_decide_def heating_up_def
  maintain_constant_def maintain_gradual_def keep_going_def end_thread_def
  get_next_level_def epilogue_def heater_on_def heater_off_eq load_sefl
  HEATER_ON_def HEATER_OFF_def fsub_20_half fsub_20_minus_1 fsub_20_tenth

lemma scan_levels_numeral:
  "scan_levels (numeral k) ((t, d) # row) s =
    (case t of
       None \<Rightarrow> scan_levels (pred_numeral k) row s
     | Some v \<Rightarrow>
         (if v \<ge> target s then
            Inr (True, (case d of
                          None \<Rightarrow> s\<lparr>target := v\<rparr>
                        | Some m \<Rightarrow> s\<lparr>target := v, duration := m\<rparr>))
          else scan_levels (pred_numeral k) row s))"
  by (simp add: numeral_eq_Suc Let_def split: option.splits)

text \<open>
  C1 (the code at the failing input). Constant mode, target 20.0, overshoot 0.5: the
  first cycle reads 18.0 and switches the heater on; then the stop event is set. The
  loop is left at its test, the epilogue runs, \<open>run\<close> returns, and the relay line is
  still \<open>LOW\<close>: the heater is on when the task ceases to run. The same holds in gradual
  mode.
\<close>

theorem cancelled_run_leaves_heater_on:
  "(\<exists>s. constant_run example_thread [cyc 18 1000, cancelled] = Finished s
        \<and> gpio s = LOW \<and> heater s = HEATER_ON)
   \<and> (\<exists>s. gradual_run example_thread [cyc 18 1000, cancelled] = Finished s
        \<and> gpio s = LOW \<and> heater s = HEATER_ON)"
  by (simp add: run_eval)

text \<open>
  C3 (the code at two failing inputs). Constant mode, target 20.0, duration 1 minute.

  First input, configured overshoot -1.0: the first cycle reads 20.5, which is below
  \<open>target - overshoot = 21.0\<close> and at least the target, so the heater is switched on and
  the attained-timestamp is set to 1000. The second cycle, 60 seconds later, finds the
  duration reached with the stored heater state \<open>HEATER_ON\<close>, calls \<open>_heater_off\<close>,
  and the thread dies with \<open>NameError\<close>: the loop is not left by \<open>break\<close> and the
  epilogue does not run.

  Second input, overshoot 0.5, the thread created while the relay line is \<open>LOW\<close> (a
  cancelled predecessor has left the heater on): the first cycle reads 21.0 and sets
  the attained-timestamp; 60 seconds later the duration is reached with the stored
  heater state \<open>HEATER_OFF\<close>, nothing is commanded, the loop is left by \<open>break\<close> and
  the thread returns with the relay line still \<open>LOW\<close>, heater on.
\<close>

theorem duration_expiry_failures:
  "(\<exists>s. constant_run (Mode_init HIGH 1 (Some (Some 20, Some 1)) (Some (- 1)) (Some 10))
          [cyc 20.5 1000, cyc 20.5 1060] = Raised NameError s
        \<and> timestamp s = 1000 \<and> duration s = 1 \<and> heater s = HEATER_ON)
   \<and> (\<exists>s. constant_run (Mode_init LOW 1 (Some (Some 20, Some 1)) (Some 0.5) (Some 10))
          [cyc 21 1000, cyc 21 1060] = Finished s
        \<and> timestamp s = 1000 \<and> gpio s = LOW \<and> heater s = HEATER_OFF)"
  by (simp add: run_eval)

text \<open>
  When the stored heater state is \<open>HEATER_ON\<close> at the expiry of the duration, the cycle
  always ends with \<open>NameError\<close> (the relay line set \<open>HIGH\<close>); otherwise the loop is left
  by \<open>break\<close> and nothing is commanded.
\<close>

lemma duration_expiry_decide:
  assumes "timestamp s \<noteq> 0" and "duration s > 0"
    and "(ts - timestamp s) div 60 \<ge> duration s"
  shows "constant_decide ts s =
    (if heater s = HEATER_ON then Raise NameError (s\<lparr>gpio := HIGH\<rparr>) else Break s)"
  using assms by (simp add: constant_decide_def maintain_constant_def end_thread_def heater_off_eq)

text \<open>
  C5 (the code at the failing input). Target 20.0, overshoot 0.5, readings 18.0 and
  then 20.0: the second cycle is the first one whose reading is at least the target,
  but \<open>_heater_off\<close> raises before the statement that sets the attained-timestamp is
  reached; the thread is dead and the timestamp is still 0.
\<close>

theorem first_attainment_not_recorded:
  "\<exists>s. constant_run example_thread [cyc 18 1000, cyc 20 1010] = Raised NameError s
       \<and> timestamp s = 0 \<and> sensors s = [\<lparr>cur = 20, prev = 18\<rparr>] \<and> target s = 20"
  by (simp add: run_eval)

text \<open>
  C2 (the code at the failing input). Gradual mode on the record \<open>two_levels\<close>: the
  thread has attained level 1 (target 20.0) at 1000 and its minute has passed at 1060.
  \<open>_get_next_level\<close> selects target 20.0 and duration 1 again, the level just
  consumed, not 30.0; the run goes on climbing to 20.0.
\<close>

theorem next_level_reselects_first:
  "(\<exists>s. get_next_level (Row two_levels)
          ((Mode_init HIGH 1 (Some (Some 20, Some 1)) (Some 0.5) (Some 10))
             \<lparr>timestamp := 1000\<rparr>) = Inr (True, s)
        \<and> target s = 20 \<and> duration s = 1 \<and> timestamp s = 0)
   \<and> (\<exists>s. gradual_run (Mode_init HIGH 1 (Some (Some 20, Some 1)) (Some 0.5) (Some 10))
          [cyc 20 1000, (cyc 20 1060)\<lparr>fermentation := Row two_levels\<rparr>] = Running s
        \<and> target s = 20 \<and> duration s = 1 \<and> timestamp s = 0)"
  by (simp add: run_eval scan_levels_numeral)

text \<open>
  Whatever level the thread is on: when the first level pair of the record holds a
  target that is not negative, \<open>_get_next_level\<close> selects that first pair.
\<close>

lemma get_next_level_first:
  "0 \<le> v \<Longrightarrow>
    get_next_level (Row ((Some v, Some d) # rest)) s =
      Inr (True, s\<lparr>target := v, duration := d, timestamp := 0\<rparr>)"
  by (simp add: get_next_level_def scan_levels_numeral)

text \<open>
  C7 (counterexample). On the example of the specification the claim fails: the third
  reading, 19.6, is not below \<open>target - overshoot = 19.5\<close> and not below the previous
  reading, and the heater is on, so the third cycle sets the relay line \<open>HIGH\<close>; the
  heater is not on at the end of the third cycle.
\<close>

theorem spec_example_counterexample:
  "\<not> (gpio (final (constant_run example_thread (take 1 example_readings))) = LOW
      \<and> gpio (final (constant_run example_thread (take 2 example_readings))) = LOW
      \<and> gpio (final (constant_run example_thread (take 3 example_readings))) = LOW
      \<and> gpio (final (constant_run example_thread (take 4 example_readings))) = LOW
      \<and> timestamp (final (constant_run example_thread (take 5 example_readings))) = 1040
      \<and> gpio (final (constant_run example_thread (take 5 example_readings))) = HIGH)"
  by (simp add: run_eval)

text \<open>
  C7 (amended). On the example of the specification the heater is on (relay line
  \<open>LOW\<close>, stored state \<open>HEATER_ON\<close>) at the end of the first and of the second cycle,
  with the attained-timestamp still 0; the third cycle switches the relay line to
  \<open>HIGH\<close>, heater off.
\<close>

theorem spec_example_amended:
  "gpio (final (constant_run example_thread (take 1 example_readings))) = LOW
   \<and> heater (final (constant_run example_thread (take 1 example_readings))) = HEATER_ON
   \<and> gpio (final (constant_run example_thread (take 2 example_readings))) = LOW
   \<and> heater (final (constant_run example_thread (take 2 example_readings))) = HEATER_ON
   \<and> timestamp (final (constant_run example_thread (take 2 example_readings))) = 0
   \<and> gpio (final (constant_run example_thread (take 3 example_readings))) = HIGH"
  by (simp add: run_eval)

subsection \<open>The states of the mode state machine\<close>

text \<open>
  The lemmas of this subsection do not use what \<open>_heater_off\<close> does: they hold
  whether it raises or returns.
\<close>

lemma heater_off_state:
  "heater_off s = Inl (e, s') \<Longrightarrow> state s' = state s"
  "heater_off s = Inr s' \<Longrightarrow> state s' = state s"
  by (auto simp: heater_off_def Let_def split: option.splits)

lemma heating_up_state:
  "heating_up ts s = Inl (e, s') \<Longrightarrow> state s' = state s \<or> state s' = HEATING"
  "heating_up ts s = Inr s' \<Longrightarrow> state s' = state s \<or> state s' = HEATING"
  by (auto simp: heating_up_def heater_on_def Let_def
      dest: heater_off_state split: list.splits if_splits sum.splits)

lemma keep_going_state:
  "state (step_state (keep_going s)) = state s
    \<or> state (step_state (keep_going s)) = WAITING_FOR_PEAK"
  by (auto simp: keep_going_def heater_on_def
      dest: heater_off_state split: list.splits sum.splits prod.splits)

lemma end_thread_state: "state (step_state (end_thread s)) = state s"
  by (auto simp: end_thread_def dest: heater_off_state
      split: sum.splits prod.splits option.splits)

lemma step_state_cases:
  "(\<And>s'. r = Continue s' \<Longrightarrow> P s') \<Longrightarrow> (\<And>s'. r = Break s' \<Longrightarrow> P s')
    \<Longrightarrow> (\<And>e s'. r = Raise e s' \<Longrightarrow> P s') \<Longrightarrow> P (step_state r)"
  by (cases r) simp_all

lemma constant_decide_no_trough:
  assumes "state s \<noteq> WAITING_FOR_TROUGH"
  shows "state (step_state (constant_decide ts s)) \<noteq> WAITING_FOR_TROUGH"
proof (cases "timestamp s = 0")
  case True
  then show ?thesis
    using assms heating_up_state [of ts s]
    by (auto simp: constant_decide_def split: sum.splits prod.splits)
next
  case False
  then show ?thesis
    using assms keep_going_state [of s] end_thread_state [of s]
    by (auto simp: constant_decide_def maintain_constant_def)
qed

lemma maintain_gradual_no_trough:
  assumes "state s \<noteq> WAITING_FOR_TROUGH"
  shows "state (step_state (maintain_gradual inp s)) \<noteq> WAITING_FOR_TROUGH"
proof (cases "duration s > 0 \<and> (now inp - timestamp s) div 60 \<ge> duration s")
  case False
  then show ?thesis
    using assms keep_going_state [of s] by (auto simp: maintain_gradual_def)
next
  case True
  show ?thesis
  proof (cases "get_next_level (fermentation inp) s")
    case (Inl x)
    then obtain e s1 where x: "get_next_level (fermentation inp) s = Inl (e, s1)"
      by (cases x) simp
    from get_next_level_frame_raise [OF x] assms True x show ?thesis
      by (simp add: maintain_gradual_def)
  next
    case (Inr x)
    then obtain b s1 where x: "get_next_level (fermentation inp) s = Inr (b, s1)"
      by (cases x) simp
    from get_next_level_frame [OF x] have "state s1 = state s" by simp
    with assms True x keep_going_state [of s1] end_thread_state [of s1] show ?thesis
      by (auto simp: maintain_gradual_def)
  qed
qed

lemma gradual_decide_no_trough:
  assumes "state s \<noteq> WAITING_FOR_TROUGH"
  shows "state (step_state (gradual_decide inp s)) \<noteq> WAITING_FOR_TROUGH"
proof (cases "timestamp s = 0")
  case True
  then show ?thesis
    using assms heating_up_state [of "now inp" s]
    by (auto simp: gradual_decide_def split: sum.splits prod.splits)
next
  case False
  then show ?thesis
    using maintain_gradual_no_trough [OF assms] by (simp add: gradual_decide_def)
qed

lemma constant_cycle_no_trough:
  assumes "state s \<noteq> WAITING_FOR_TROUGH"
  shows "state (step_state (constant_cycle inp s)) \<noteq> WAITING_FOR_TROUGH"
proof (cases "read_temperatures (temps inp) s")
  case (Inl x)
  then obtain e s1 where "read_temperatures (temps inp) s = Inl (e, s1)" by (cases x) simp
  with read_temperatures_frame(2) [OF this] assms show ?thesis
    by (auto simp: constant_cycle_def)
next
  case (Inr s1)
  with read_temperatures_frame(1) [OF this] assms
  have "state s1 \<noteq> WAITING_FOR_TROUGH" by auto
  from constant_decide_no_trough [OF this] Inr this show ?thesis
    by (simp add: constant_cycle_def)
qed

lemma gradual_cycle_no_trough:
  assumes "state s \<noteq> WAITING_FOR_TROUGH"
  shows "state (step_state (gradual_cycle inp s)) \<noteq> WAITING_FOR_TROUGH"
proof (cases "read_temperatures (temps inp) s")
  case (Inl x)
  then obtain e s1 where "read_temperatures (temps inp) s = Inl (e, s1)" by (cases x) simp
  with read_temperatures_frame(2) [OF this] assms show ?thesis
    by (auto simp: gradual_cycle_def)
next
  case (Inr s1)
  with read_temperatures_frame(1) [OF this] assms
  have "state s1 \<noteq> WAITING_FOR_TROUGH" by auto
  from gradual_decide_no_trough [OF this] Inr this show ?thesis
    by (simp add: gradual_cycle_def)
qed

lemma epilogue_final [simp]: "final (epilogue inp s) = s"
  by (simp add: epilogue_def)

lemma constant_run_no_trough:
  "state s \<noteq> WAITING_FOR_TROUGH \<Longrightarrow>
    state (final (constant_run s tr)) \<noteq> WAITING_FOR_TROUGH"
proof (induction tr arbitrary: s)
  case Nil
  then show ?case by simp
next
  case (Cons inp tr)
  from constant_cycle_no_trough [OF Cons.prems, of inp] Cons.IH Cons.prems
  show ?case by (cases "constant_cycle inp s") simp_all
qed

lemma gradual_run_no_trough:
  "state s \<noteq> WAITING_FOR_TROUGH \<Longrightarrow>
    state (final (gradual_run s tr)) \<noteq> WAITING_FOR_TROUGH"
proof (induction tr arbitrary: s)
  case Nil
  then show ?case by simp
next
  case (Cons inp tr)
  from gradual_cycle_no_trough [OF Cons.prems, of inp] Cons.IH Cons.prems
  show ?case by (cases "gradual_cycle inp s") simp_all
qed

lemma state_init: "state (Mode_init line n row ov cy) = IDLE"
  by (simp add: Mode_init_def FermentationThread_init_def Let_def
      split: option.splits prod.splits)

text \<open>
  C6 (counterexample). Target 20.0, overshoot 0.5. Readings 20.0 and then 19.8: the
  second cycle is a maintain-phase cycle that runs the re-arm pulse (heater on, wait,
  relay line \<open>HIGH\<close>), and the state after it is not \<open>WAITING_FOR_TROUGH\<close>. Readings
  18.0, 18.5, 19.6: the third cycle is a climb-phase cycle that switches the heater
  off, and the state after it is not \<open>WAITING_FOR_PEAK\<close>.
\<close>

theorem state_after_switching_counterexample:
  "\<not> (state (final (constant_run example_thread (take 3 example_readings)))
        = WAITING_FOR_PEAK
      \<and> state (final (constant_run example_thread [cyc 20 1000, cyc 19.8 1010]))
        = WAITING_FOR_TROUGH)
   \<and> gpio (final (constant_run example_thread (take 3 example_readings))) = HIGH
   \<and> timestamp (final (constant_run example_thread [cyc 20 1000, cyc 19.8 1010])) = 1000
   \<and> gpio (final (constant_run example_thread [cyc 20 1000, cyc 19.8 1010])) = HIGH
   \<and> heater (final (constant_run example_thread [cyc 20 1000, cyc 19.8 1010])) = HEATER_ON"
  by (simp add: run_eval)

text \<open>
  C6 (amended). The mode state machine never enters \<open>WAITING_FOR_TROUGH\<close>: on a thread
  as created, after any number of cycles of constant or gradual mode, the re-arm pulse
  of the maintain phase included, and however the run has ended, the state is not
  \<open>WAITING_FOR_TROUGH\<close>.
\<close>

theorem state_never_waiting_for_trough:
  "state (final (constant_run (Mode_init line n row ov cy) tr)) \<noteq> WAITING_FOR_TROUGH
   \<and> state (final (gradual_run (Mode_init line n row ov cy) tr)) \<noteq> WAITING_FOR_TROUGH"
  by (simp add: constant_run_no_trough gradual_run_no_trough state_init)

subsection \<open>The supervisor: at most one thread is alive\<close>














subsection \<open>The supervisor: the join loop\<close>













lemma sleep_cycle_frame [simp]:
  "thread (sleep_cycle s) = thread s" "alive (sleep_cycle s) = alive s"
  "events (sleep_cycle s) = events s" "conn (sleep_cycle s) = conn s"
  by (simp_all add: sleep_cycle_def split: option.splits)

lemma after_join_frame [simp]:
  "thread (after_join s) = thread s" "alive (after_join s) = alive s"
  "events (after_join s) = events s" "conn (after_join s) = conn s"
  by (simp_all add: after_join_def)

lemma join_test_frame [simp]:
  "alive (join_test s) = alive s" "events (join_test s) = events s"
  "conn (join_test s) = conn s"
  by (simp_all add: join_test_def split: option.splits)




lemmas sup_eval =
  main_run_def supervisor_init_def main_step_def main_iteration_def try_body_def
  start_thread_def join_test_def sleep_cycle_def on_mdb_error_def after_join_def
  on_exit_def read_configuration_def config_on_def config_off_def
  FPI_STATE_OFF_def FPI_STATE_ON_def FPI_MODE_IDLE_def FPI_MODE_CONSTANT_def
  FPI_MODE_GRADUAL_def


subsection \<open>The supervisor: a failed poll\<close>

lemma conn_step: "conn s = None \<Longrightarrow> conn (main_step ev s) = None"
proof (cases ev)
  case (Poll p ctor)
  assume c: "conn s = None"
  show ?thesis
  proof (cases p)
    case DbFailure
    with Poll c show ?thesis
      by (simp add: main_step_def main_iteration_def try_body_def on_mdb_error_def)
  next
    case (Rows rows)
    with Poll c show ?thesis
      by (auto simp: main_step_def main_iteration_def try_body_def Let_def
          start_thread_def on_mdb_error_def split: if_splits option.splits)
  qed
next
  case JoinTimeout
  assume "conn s = None"
  with JoinTimeout show ?thesis by (simp add: main_step_def)
next
  case (RunEnds k)
  assume "conn s = None"
  with RunEnds show ?thesis by (simp add: main_step_def)
next
  case Signal
  assume "conn s = None"
  with Signal show ?thesis
    by (auto simp: main_step_def on_exit_def split: option.splits)
qed

lemma conn_foldl:
  "conn s = None \<Longrightarrow> conn (foldl (\<lambda>s ev. main_step ev s) s evs) = None"
  by (induction evs arbitrary: s) (simp_all add: conn_step)

text \<open>The local variable \<open>conn\<close> of \<open>main\<close> is never bound.\<close>

lemma conn_run: "conn (main_run evs) = None"
  unfolding main_run_def by (rule conn_foldl) (simp add: supervisor_init_def)

text \<open>
  Whenever the main thread is in its loop and not inside a join, a poll that raises a
  database error ends the main thread with \<open>UnboundLocalError\<close>.
\<close>

lemma failed_poll_ends_main:
  assumes "ended (main_run evs) = None" and "\<not> joining (main_run evs)"
  shows "ended (main_step (Poll DbFailure ctor) (main_run evs)) = Some UnboundLocalError"
  using assms conn_run [of evs]
  by (simp add: main_step_def main_iteration_def try_body_def on_mdb_error_def)

text \<open>
  C9 (the code at the failing input). The controller is switched on and thread 0 is
  started; the next poll raises a database error. The handler logs it and then tests
  the unbound local variable \<open>conn\<close>: the main thread ends with \<open>UnboundLocalError\<close>,
  with thread 0 still alive, and no later poll changes anything.
\<close>

theorem failed_poll_ends_supervisor:
  "ended (main_run [Poll (Rows config_on) None, Poll DbFailure None])
      = Some UnboundLocalError
   \<and> alive (main_run [Poll (Rows config_on) None, Poll DbFailure None]) = {0}
   \<and> main_run [Poll (Rows config_on) None, Poll DbFailure None, Poll (Rows config_off) None]
      = main_run [Poll (Rows config_on) None, Poll DbFailure None]"
  by (simp add: sup_eval)

subsection \<open>The attained-timestamp\<close>

lemma heater_off_timestamp:
  "heater_off s = Inl (e, s') \<Longrightarrow> timestamp s' = timestamp s"
  "heater_off s = Inr s' \<Longrightarrow> timestamp s' = timestamp s"
  by (auto simp: heater_off_def Let_def split: option.splits)

lemma keep_going_timestamp: "timestamp (step_state (keep_going s)) = timestamp s"
  by (auto simp: keep_going_def heater_on_def
      dest: heater_off_timestamp split: list.splits sum.splits prod.splits)

lemma end_thread_timestamp: "timestamp (step_state (end_thread s)) = timestamp s"
  by (auto simp: end_thread_def dest: heater_off_timestamp
      split: sum.splits prod.splits option.splits)

text \<open>
  A climb-phase decision step that returns has set the attained-timestamp to the
  clock value of the cycle if the reading is at least the target, and has left it 0
  otherwise.
\<close>

lemma heating_up_timestamp:
  assumes "timestamp s = 0" and "sensors s = p # ps" and "heating_up ts s = Inr s'"
  shows "timestamp s' = (if cur p \<ge> target s then ts else 0)"
  using assms
  by (auto simp: heating_up_def heater_on_def heater_off_eq Let_def split: if_splits)

text \<open>
  Once the attained-timestamp is set, no decision step of constant mode changes it,
  however the step ends.
\<close>

lemma constant_decide_keeps_timestamp:
  "timestamp s \<noteq> 0 \<Longrightarrow> timestamp (step_state (constant_decide ts s)) = timestamp s"
  by (simp add: constant_decide_def maintain_constant_def keep_going_timestamp
      end_thread_timestamp)

text \<open>
  Once the attained-timestamp is set, a decision step of gradual mode changes it only
  by calling \<open>_get_next_level\<close> (the duration of the level has expired), which makes
  it 0.
\<close>

lemma gradual_decide_keeps_timestamp:
  assumes "timestamp s \<noteq> 0"
  shows "timestamp (step_state (gradual_decide inp s)) =
    (if duration s > 0 \<and> (now inp - timestamp s) div 60 \<ge> duration s then 0
     else timestamp s)"
proof (cases "duration s > 0 \<and> (now inp - timestamp s) div 60 \<ge> duration s")
  case False
  with assms show ?thesis
    by (auto simp: gradual_decide_def maintain_gradual_def keep_going_timestamp)
next
  case True
  show ?thesis
  proof (cases "get_next_level (fermentation inp) s")
    case (Inl x)
    then obtain e s1 where x: "get_next_level (fermentation inp) s = Inl (e, s1)"
      by (cases x) simp
    from get_next_level_frame_raise [OF x] assms True x show ?thesis
      by (simp add: gradual_decide_def maintain_gradual_def)
  next
    case (Inr x)
    then obtain b s1 where x: "get_next_level (fermentation inp) s = Inr (b, s1)"
      by (cases x) simp
    from get_next_level_frame [OF x] have "timestamp s1 = 0" by simp
    with assms True x keep_going_timestamp [of s1] end_thread_timestamp [of s1]
    show ?thesis
      by (simp add: gradual_decide_def maintain_gradual_def)
  qed
qed

subsection \<open>Constant mode with a sensible configuration\<close>

lemma read_from_primary:
  "read_from 0 hw (p # ps) = (None, qs) \<Longrightarrow> \<exists>t qs'. qs = \<lparr>cur = t, prev = cur p\<rparr> # qs'"
  by (auto split: reading.splits prod.splits)

lemma read_from_Nil: "read_from i hw [] = (e, qs) \<Longrightarrow> qs = []"
  by simp

lemma heating_up_settled:
  assumes "timestamp s = 0" and "fsub (target s) (overshoot s) \<le> target s"
    and "sensors s = q # qs"
    and "prev q \<le> target s" and "ts \<noteq> 0" and "heating_up ts s = Inr s'"
    and "mirrors s"
  shows "settled s'"
  using assms
  by (auto simp: heating_up_def heater_on_def heater_off_eq settled_def mirrors_def Let_def
      split: if_splits)

lemma constant_cycle_settled:
  assumes "settled s" and "now inp \<noteq> 0" and "constant_cycle inp s = Continue s'"
    and "mirrors s"
  shows "settled s'"
proof -
  from assms(3) obtain s1 where r: "read_temperatures (temps inp) s = Inr s1"
    and d: "constant_decide (now inp) s1 = Continue s'"
    by (auto simp: constant_cycle_def split: sum.splits prod.splits if_splits)
  from r obtain qs where q: "read_from 0 (temps inp) (sensors s) = (None, qs)"
    and s1: "s1 = s\<lparr>sensors := qs\<rparr>"
    by (auto simp: read_temperatures_def split: prod.splits option.splits)
  show ?thesis
  proof (cases "timestamp s = 0")
    case False
    with d s1 have "s' = s1"
      by (auto simp: constant_decide_def maintain_constant_def end_thread_not_Continue
          dest: keep_going_Continue split: if_splits)
    with s1 False assms(1) show ?thesis by (simp add: settled_def)
  next
    case True
    with d s1 obtain h: "heating_up (now inp) s1 = Inr s'"
      by (auto simp: constant_decide_def split: sum.splits prod.splits)
    show ?thesis
    proof (cases "sensors s")
      case Nil
      with q have "qs = []" by simp
      with h s1 show ?thesis by (simp add: heating_up_def)
    next
      case (Cons p ps)
      with q have "\<exists>t qs'. qs = \<lparr>cur = t, prev = cur p\<rparr> # qs'"
        by (simp only: read_from_primary)
      then obtain t qs' where qs: "qs = \<lparr>cur = t, prev = cur p\<rparr> # qs'" by blast
      from assms(1) True Cons
      have "cur p \<le> target s" "fsub (target s) (overshoot s) \<le> target s"
        by (simp_all add: settled_def)
      with heating_up_settled [of s1 "\<lparr>cur = t, prev = cur p\<rparr>" qs' "now inp" s']
        True s1 qs assms(2,4) h
      show ?thesis by simp
    qed
  qed
qed

text \<open>
  In constant mode with a target that is not negative, a computed margin
  \<open>target - overshoot\<close> that is at most the target, and a clock that never reads 0, a running thread that has reached the maintain phase has the stored heater
  state \<open>HEATER_OFF\<close>: the maintain phase is reached only by threads that have never
  switched the heater on.
\<close>

lemma constant_run_settled:
  "settled s \<Longrightarrow> mirrors s \<Longrightarrow> list_all (\<lambda>inp. now inp \<noteq> 0) tr
    \<Longrightarrow> constant_run s tr = Running s' \<Longrightarrow> settled s'"
proof (induction tr arbitrary: s)
  case Nil
  then show ?case by simp
next
  case (Cons inp tr)
  show ?case
  proof (cases "constant_cycle inp s")
    case (Continue s1)
    with Cons.prems have "constant_run s1 tr = Running s'"
      by (simp add: epilogue_def split: if_splits)
    moreover have "settled s1"
      using Cons.prems(1,2,3) Continue by (auto intro: constant_cycle_settled)
    moreover have "mirrors s1"
      using Cons.prems(2) Continue by (rule constant_cycle_mirrors)
    moreover have "list_all (\<lambda>inp. now inp \<noteq> 0) tr" using Cons.prems(3) by simp
    ultimately show ?thesis using Cons.IH by blast
  next
    case (Break s1)
    with Cons.prems show ?thesis by (simp add: epilogue_def split: if_splits)
  next
    case (Raise e s1)
    with Cons.prems show ?thesis by (simp add: epilogue_def split: if_splits)
  qed
qed

lemma settled_init:
  "0 \<le> t \<Longrightarrow> fsub t ov \<le> t
    \<Longrightarrow> settled (Mode_init line n (Some (Some t, d)) (Some ov) cy)"
  by (cases n)
    (simp_all add: Mode_init_def FermentationThread_init_def settled_def Let_def
      split: option.splits)

subsection \<open>The relay line when a thread ends\<close>

lemma follows_line_sensors [simp]: "follows_line (s\<lparr>sensors := ps\<rparr>) = follows_line s"
  by (simp add: follows_line_def)

lemma follows_line_init: "follows_line (Mode_init HIGH n row ov cy)"
  by (simp add: Mode_init_def FermentationThread_init_def follows_line_def Let_def
      split: option.splits prod.splits)

lemma heating_up_follows_line:
  "follows_line s \<Longrightarrow> heating_up ts s = Inr s' \<Longrightarrow> follows_line s'"
  by (auto simp: heating_up_def heater_on_def heater_off_eq follows_line_def Let_def
      split: list.splits if_splits)

lemma constant_decide_follows_line:
  "follows_line s \<Longrightarrow> constant_decide ts s = Continue s' \<Longrightarrow> follows_line s'"
  by (auto simp: constant_decide_def maintain_constant_def end_thread_not_Continue
      dest: heating_up_follows_line keep_going_Continue
      split: if_splits sum.splits prod.splits)

lemma end_thread_Break_line:
  assumes "follows_line s" and "end_thread s = Break s'"
  shows "gpio s' = HIGH"
  using end_thread_Break [OF assms(2)] assms(1) by (auto simp: follows_line_def)

lemma maintain_gradual_follows_line:
  assumes "follows_line s" and "maintain_gradual inp s = Continue s'"
  shows "follows_line s'"
proof (cases "duration s > 0 \<and> (now inp - timestamp s) div 60 \<ge> duration s")
  case False
  with assms show ?thesis by (auto simp: maintain_gradual_def dest: keep_going_Continue)
next
  case True
  with assms(2) obtain b s1 where g: "get_next_level (fermentation inp) s = Inr (b, s1)"
    and k: "(if b then keep_going s1 else end_thread s1) = Continue s'"
    by (auto simp: maintain_gradual_def split: sum.splits prod.splits)
  from k have "s' = s1"
    by (auto simp: end_thread_not_Continue dest: keep_going_Continue split: if_splits)
  with get_next_level_frame [OF g] assms(1) show ?thesis by (simp add: follows_line_def)
qed

lemma maintain_gradual_Break:
  assumes "follows_line s" and "maintain_gradual inp s = Break s'"
  shows "gpio s' = HIGH"
proof (cases "duration s > 0 \<and> (now inp - timestamp s) div 60 \<ge> duration s")
  case False
  with assms show ?thesis by (simp add: maintain_gradual_def keep_going_not_Break)
next
  case True
  with assms(2) obtain b s1 where g: "get_next_level (fermentation inp) s = Inr (b, s1)"
    and k: "(if b then keep_going s1 else end_thread s1) = Break s'"
    by (auto simp: maintain_gradual_def split: sum.splits prod.splits)
  from k have e: "end_thread s1 = Break s'"
    by (auto simp: keep_going_not_Break split: if_splits)
  from get_next_level_frame [OF g] assms(1) have "follows_line s1"
    by (simp add: follows_line_def)
  then show ?thesis using e by (rule end_thread_Break_line)
qed

lemma gradual_decide_follows_line:
  "follows_line s \<Longrightarrow> gradual_decide inp s = Continue s' \<Longrightarrow> follows_line s'"
  by (auto simp: gradual_decide_def
      dest: heating_up_follows_line maintain_gradual_follows_line
      split: if_splits sum.splits prod.splits)

lemma constant_decide_Break:
  "follows_line s \<Longrightarrow> constant_decide ts s = Break s' \<Longrightarrow> gpio s' = HIGH"
  by (auto simp: constant_decide_def maintain_constant_def keep_going_not_Break
      dest: end_thread_Break_line split: if_splits sum.splits prod.splits)

lemma gradual_decide_Break:
  "follows_line s \<Longrightarrow> gradual_decide inp s = Break s' \<Longrightarrow> gpio s' = HIGH"
  by (auto simp: gradual_decide_def dest: maintain_gradual_Break
      split: if_splits sum.splits prod.splits)

lemma constant_cycle_decide:
  "constant_cycle inp s = r \<Longrightarrow> r = Continue s' \<or> r = Break s' \<Longrightarrow>
    \<exists>ps. constant_decide (now inp) (s\<lparr>sensors := ps\<rparr>) = r"
  by (auto simp: constant_cycle_def dest!: read_temperatures_frame(1)
      split: sum.splits prod.splits if_splits)

lemma gradual_cycle_decide:
  "gradual_cycle inp s = r \<Longrightarrow> r = Continue s' \<or> r = Break s' \<Longrightarrow>
    \<exists>ps. gradual_decide inp (s\<lparr>sensors := ps\<rparr>) = r"
  by (auto simp: gradual_cycle_def dest!: read_temperatures_frame(1)
      split: sum.splits prod.splits if_splits)

lemma constant_cycle_follows_line:
  assumes "follows_line s"
  shows "constant_cycle inp s = Continue s' \<Longrightarrow> follows_line s'"
    and "constant_cycle inp s = Break s' \<Longrightarrow> gpio s' = HIGH"
proof -
  assume c: "constant_cycle inp s = Continue s'"
  from constant_cycle_decide [OF c] obtain ps
    where "constant_decide (now inp) (s\<lparr>sensors := ps\<rparr>) = Continue s'" by blast
  with assms show "follows_line s'"
    using constant_decide_follows_line [of "s\<lparr>sensors := ps\<rparr>"] by simp
next
  assume c: "constant_cycle inp s = Break s'"
  from constant_cycle_decide [OF c] obtain ps
    where "constant_decide (now inp) (s\<lparr>sensors := ps\<rparr>) = Break s'" by blast
  with assms show "gpio s' = HIGH"
    using constant_decide_Break [of "s\<lparr>sensors := ps\<rparr>"] by simp
qed

lemma gradual_cycle_follows_line:
  assumes "follows_line s"
  shows "gradual_cycle inp s = Continue s' \<Longrightarrow> follows_line s'"
    and "gradual_cycle inp s = Break s' \<Longrightarrow> gpio s' = HIGH"
proof -
  assume c: "gradual_cycle inp s = Continue s'"
  from gradual_cycle_decide [OF c] obtain ps
    where "gradual_decide inp (s\<lparr>sensors := ps\<rparr>) = Continue s'" by blast
  with assms show "follows_line s'"
    using gradual_decide_follows_line [of "s\<lparr>sensors := ps\<rparr>"] by simp
next
  assume c: "gradual_cycle inp s = Break s'"
  from gradual_cycle_decide [OF c] obtain ps
    where "gradual_decide inp (s\<lparr>sensors := ps\<rparr>) = Break s'" by blast
  with assms show "gpio s' = HIGH"
    using gradual_decide_Break [of "s\<lparr>sensors := ps\<rparr>"] by simp
qed

text \<open>
  Duration and level exhaustion: a thread whose stored heater state and relay line
  agree (as they do from a creation with the line \<open>HIGH\<close> on), and whose stop event is
  never set, returns from \<open>run\<close> only with the relay line \<open>HIGH\<close>, heater off.
\<close>

lemma constant_run_exhausted_line_high:
  "follows_line s \<Longrightarrow> list_all (\<lambda>inp. \<not> stop inp) tr \<Longrightarrow> constant_run s tr = Finished s'
    \<Longrightarrow> gpio s' = HIGH"
proof (induction tr arbitrary: s)
  case Nil
  then show ?case by simp
next
  case (Cons inp tr)
  show ?case
  proof (cases "constant_cycle inp s")
    case (Continue s1)
    with Cons.prems have "constant_run s1 tr = Finished s'" by simp
    moreover have "follows_line s1"
      using Cons.prems(1) Continue by (rule constant_cycle_follows_line(1))
    moreover have "list_all (\<lambda>inp. \<not> stop inp) tr" using Cons.prems(2) by simp
    ultimately show ?thesis using Cons.IH by blast
  next
    case (Break s1)
    with Cons.prems have "s' = s1" by (simp add: epilogue_def split: if_splits)
    with constant_cycle_follows_line(2) [OF Cons.prems(1) Break] show ?thesis by simp
  next
    case (Raise e s1)
    with Cons.prems show ?thesis by simp
  qed
qed

lemma gradual_run_exhausted_line_high:
  "follows_line s \<Longrightarrow> list_all (\<lambda>inp. \<not> stop inp) tr \<Longrightarrow> gradual_run s tr = Finished s'
    \<Longrightarrow> gpio s' = HIGH"
proof (induction tr arbitrary: s)
  case Nil
  then show ?case by simp
next
  case (Cons inp tr)
  show ?case
  proof (cases "gradual_cycle inp s")
    case (Continue s1)
    with Cons.prems have "gradual_run s1 tr = Finished s'" by simp
    moreover have "follows_line s1"
      using Cons.prems(1) Continue by (rule gradual_cycle_follows_line(1))
    moreover have "list_all (\<lambda>inp. \<not> stop inp) tr" using Cons.prems(2) by simp
    ultimately show ?thesis using Cons.IH by blast
  next
    case (Break s1)
    with Cons.prems have "s' = s1" by (simp add: epilogue_def split: if_splits)
    with gradual_cycle_follows_line(2) [OF Cons.prems(1) Break] show ?thesis by simp
  next
    case (Raise e s1)
    with Cons.prems show ?thesis by simp
  qed
qed

end
